theory Spec2Isabelle
  imports Complex_Main
begin

section \<open>msanii demo utilities: length alignment, padding, masking, scaling\<close>

text \<open>
  The development embeds the functions of \<^verbatim>\<open>src/msanii/demo/utils.py\<close>.
  Python integers are \<^typ>\<open>int\<close>. Samples are exact numbers: the quotient of two Python
  integers (\<^verbatim>\<open>/\<close>) is the exact real quotient, which is what the double-precision
  quotient is for the magnitudes of sample counts (below \<open>2 ^ 53\<close>). Every raise of the
  source, and of the library calls it makes, is a value of \<open>py_error\<close>.
\<close>

datatype py_error = ZeroDivisionError | ValueError | RuntimeError | EinopsError

subsection \<open>Python arithmetic\<close>

text \<open>\<^verbatim>\<open>int(x)\<close> on a float truncates towards zero.\<close>

definition py_int :: "real \<Rightarrow> int" where
  "py_int x = (if 0 \<le> x then \<lfloor>x\<rfloor> else \<lceil>x\<rceil>)"

text \<open>\<^verbatim>\<open>a / b\<close> on Python integers: true division, raising on a zero divisor.\<close>

definition py_truediv :: "int \<Rightarrow> int \<Rightarrow> py_error + real" where
  "py_truediv a b = (if b = 0 then Inl ZeroDivisionError else Inr (real_of_int a / real_of_int b))"

subsection \<open>Divisible length\<close>

text \<open>
  \<^verbatim>\<open>compute_divisible_length\<close>. The number of downsampling layers is a \<^typ>\<open>nat\<close>:
  for a negative exponent \<^verbatim>\<open>2**num_downsamples\<close> is a float, a case the callers
  never produce.
\<close>

definition compute_divisible_length :: "int \<Rightarrow> int \<Rightarrow> nat \<Rightarrow> py_error + int" where
  "compute_divisible_length curr_length hop_length num_downsamples =
     (case py_truediv curr_length hop_length of
        Inl e \<Rightarrow> Inl e
      | Inr q \<Rightarrow>
          (let num_time_frames = py_int (q + 1);
               divisible_time_frames =
                 \<lceil>real_of_int num_time_frames / 2 ^ num_downsamples\<rceil> * 2 ^ num_downsamples;
               divisible_length = (divisible_time_frames - 1) * hop_length
           in Inr divisible_length))"

text \<open>The rounding of a frame count up to a multiple of \<open>2 ^ d\<close>, as the source writes it.\<close>

definition round_up_frames :: "int \<Rightarrow> nat \<Rightarrow> int" where
  "round_up_frames n d = \<lceil>real_of_int n / 2 ^ d\<rceil> * 2 ^ d"

subsection \<open>Tensors and arrays\<close>

text \<open>
  A tensor or array of rank at least one (a scalar array has no last axis, and every
  function here reads or reshapes one), in row-major order: \<open>lead\<close> holds the sizes of
  all axes but the last, \<open>width\<close> is \<^verbatim>\<open>shape[-1]\<close>, and \<open>rows\<close> lists the rows along the
  last axis, the leading axes flattened. A tensor of shape (batch, channel, time) has
  \<open>lead = [batch, channel]\<close> and its row \<open>b * channel + c\<close> is the signal of channel \<open>c\<close>
  of batch entry \<open>b\<close>.
\<close>

record 'a tensor =
  lead :: "nat list"
  width :: nat
  rows :: "'a list list"


definition well_shaped :: "'a tensor \<Rightarrow> bool" where
  "well_shaped x \<longleftrightarrow>
     length (rows x) = prod_list (lead x) \<and> (\<forall>r \<in> set (rows x). length r = width x)"

definition map_tensor :: "('a \<Rightarrow> 'b) \<Rightarrow> 'a tensor \<Rightarrow> 'b tensor" where
  "map_tensor f x = \<lparr>lead = lead x, width = width x, rows = map (map f) (rows x)\<rparr>"

definition elements :: "'a tensor \<Rightarrow> 'a list" where
  "elements x = concat (rows x)"

text \<open>
  \<^verbatim>\<open>torch.nn.functional.pad(x, (left, right))\<close> in its default constant mode with value
  zero, which acts on the last axis. A negative amount removes samples at its edge
  (the library narrows the tensor first); removing more samples than the axis holds
  raises. A positive amount adds zeros at its edge.
\<close>

definition F_pad :: "'a::zero tensor \<Rightarrow> int \<times> int \<Rightarrow> py_error + 'a tensor" where
  "F_pad x p =
     (case p of (left, right) \<Rightarrow>
        (let n = int (width x);
             n1 = n + min left 0;
             n2 = n1 + min right 0
         in if n1 < 0 \<or> n2 < 0 then Inl RuntimeError
            else Inr \<lparr>lead = lead x,
                      width = nat (n + left + right),
                      rows = map (\<lambda>r. replicate (nat left) 0
                                       @ take (nat n2) (drop (nat (- left)) r)
                                       @ replicate (nat right) 0) (rows x)\<rparr>))"

subsection \<open>Length aligner\<close>

definition pad_to_divisible_length ::
    "'a::zero tensor \<Rightarrow> int \<Rightarrow> nat \<Rightarrow> bool \<Rightarrow> py_error + 'a tensor" where
  "pad_to_divisible_length x hop_length num_downsamples pad_end =
     (case compute_divisible_length (int (width x)) hop_length num_downsamples of
        Inl e \<Rightarrow> Inl e
      | Inr divisible_length \<Rightarrow>
          if pad_end then F_pad x (0, divisible_length - int (width x))
          else F_pad x (divisible_length - int (width x), 0))"

subsection \<open>Ingest normalizer\<close>

text \<open>The NumPy element types the demo can receive, and \<^verbatim>\<open>np.iinfo\<close> on the integral ones.\<close>

datatype np_dtype = Int8 | Int16 | Int32 | Int64 | UInt8 | UInt16 | UInt32 | UInt64
  | Float32 | Float64

fun is_integral :: "np_dtype \<Rightarrow> bool" where
  "is_integral Float32 = False"
| "is_integral Float64 = False"
| "is_integral _ = True"

fun iinfo_max :: "np_dtype \<Rightarrow> int" where
  "iinfo_max Int8 = 2 ^ 7 - 1"
| "iinfo_max Int16 = 2 ^ 15 - 1"
| "iinfo_max Int32 = 2 ^ 31 - 1"
| "iinfo_max Int64 = 2 ^ 63 - 1"
| "iinfo_max UInt8 = 2 ^ 8 - 1"
| "iinfo_max UInt16 = 2 ^ 16 - 1"
| "iinfo_max UInt32 = 2 ^ 32 - 1"
| "iinfo_max UInt64 = 2 ^ 64 - 1"
| "iinfo_max _ = 0"

fun iinfo_min :: "np_dtype \<Rightarrow> int" where
  "iinfo_min Int8 = - (2 ^ 7)"
| "iinfo_min Int16 = - (2 ^ 15)"
| "iinfo_min Int32 = - (2 ^ 31)"
| "iinfo_min Int64 = - (2 ^ 63)"
| "iinfo_min _ = 0"

text \<open>An array holds values of its element type: integers within the type's range.\<close>

definition holds_dtype :: "np_dtype \<Rightarrow> real tensor \<Rightarrow> bool" where
  "holds_dtype t x \<longleftrightarrow>
     (is_integral t \<longrightarrow>
        (\<forall>v \<in> set (elements x). v \<in> \<int> \<and> real_of_int (iinfo_min t) \<le> v \<and> v \<le> real_of_int (iinfo_max t)))"

record ndarray =
  dtype :: np_dtype
  data :: "real tensor"

text \<open>The first statement of \<^verbatim>\<open>gradio_audio_preprocessing\<close>: integral samples are divided
  by \<^verbatim>\<open>np.iinfo(audio.dtype).max\<close>.\<close>

definition to_float :: "ndarray \<Rightarrow> real tensor" where
  "to_float audio =
     (if is_integral (dtype audio)
      then map_tensor (\<lambda>v. v / real_of_int (iinfo_max (dtype audio))) (data audio)
      else data audio)"

text \<open>
  The two \<^verbatim>\<open>einops.rearrange\<close> patterns of the ingest path. \<^verbatim>\<open>"l -> () () l"\<close> adds a
  batch and a channel axis of size one; \<^verbatim>\<open>"l c -> () c l"\<close> needs exactly two axes, puts
  the channels first and adds a batch axis.
\<close>

definition rearrange_in :: "'a tensor \<Rightarrow> py_error + 'a tensor" where
  "rearrange_in audio =
     (case lead audio of
        [] \<Rightarrow> Inr \<lparr>lead = [1, 1], width = width audio, rows = rows audio\<rparr>
      | [l] \<Rightarrow> Inr \<lparr>lead = [1, width audio], width = l,
                     rows = map (\<lambda>c. map (\<lambda>t. rows audio ! t ! c) [0..<l]) [0..<width audio]\<rparr>
      | _ \<Rightarrow> Inl EinopsError)"

text \<open>
  \<^verbatim>\<open>torchaudio.functional.resample\<close>: it rejects a rate that is not positive, returns
  its input when the two rates are equal, and interpolates otherwise. The
  interpolation is the parameter \<open>sinc_interp\<close>.
\<close>

definition AF_resample ::
    "(int \<Rightarrow> int \<Rightarrow> 'a tensor \<Rightarrow> 'a tensor) \<Rightarrow> 'a tensor \<Rightarrow> int \<Rightarrow> int \<Rightarrow> py_error + 'a tensor" where
  "AF_resample sinc_interp waveform orig_freq new_freq =
     (if orig_freq \<le> 0 \<or> new_freq \<le> 0 then Inl ValueError
      else if orig_freq = new_freq then Inr waveform
      else Inr (sinc_interp orig_freq new_freq waveform))"

text \<open>
  \<^verbatim>\<open>gradio_audio_preprocessing\<close>. The parameter \<open>cast\<close> is the conversion of one sample
  to the requested \<^verbatim>\<open>dtype\<close>; the move to a device changes no value.
\<close>

definition gradio_audio_preprocessing ::
    "(int \<Rightarrow> int \<Rightarrow> real tensor \<Rightarrow> real tensor) \<Rightarrow> ndarray \<Rightarrow> int \<Rightarrow> int \<Rightarrow> int \<Rightarrow> int \<Rightarrow> nat
       \<Rightarrow> (real \<Rightarrow> real) \<Rightarrow> bool \<Rightarrow> py_error + real tensor" where
  "gradio_audio_preprocessing sinc_interp audio src_sample_rate target_sample_rate target_length
       hop_length num_downsamples cast pad_end =
     (case rearrange_in (to_float audio) of
        Inl e \<Rightarrow> Inl e
      | Inr a1 \<Rightarrow>
     (case AF_resample sinc_interp a1 src_sample_rate target_sample_rate of
        Inl e \<Rightarrow> Inl e
      | Inr a2 \<Rightarrow>
     (case py_truediv (target_length * target_sample_rate) src_sample_rate of
        Inl e \<Rightarrow> Inl e
      | Inr q \<Rightarrow>
     (let target_length' = py_int q in
      case (if pad_end then F_pad a2 (0, target_length' - int (width a2))
            else F_pad a2 (target_length' - int (width a2), 0)) of
        Inl e \<Rightarrow> Inl e
      | Inr a3 \<Rightarrow>
     (case pad_to_divisible_length a3 hop_length num_downsamples pad_end of
        Inl e \<Rightarrow> Inl e
      | Inr a4 \<Rightarrow> Inr (map_tensor cast a4))))))"

subsection \<open>Egress denormalizer\<close>

text \<open>
  \<^verbatim>\<open>rearrange(audio, "b c l -> (l b) c")\<close>: the input needs exactly three axes. In the
  merged axis \<^verbatim>\<open>(l b)\<close> the first name varies slowest: the output row of time step \<open>t\<close>
  and batch entry \<open>b\<close> has index \<open>t * B + b\<close>.
\<close>

definition rearrange_out :: "'a tensor \<Rightarrow> py_error + 'a tensor" where
  "rearrange_out audio =
     (case lead audio of
        [B, C] \<Rightarrow>
          Inr \<lparr>lead = [width audio * B], width = C,
               rows = concat (map (\<lambda>t. map (\<lambda>b. map (\<lambda>c. rows audio ! (b * C + c) ! t) [0..<C])
                                           [0..<B])
                                  [0..<width audio])\<rparr>
      | _ \<Rightarrow> Inl EinopsError)"

definition gradio_audio_postprocessing :: "'a::zero tensor \<Rightarrow> int \<Rightarrow> bool \<Rightarrow> py_error + 'a tensor" where
  "gradio_audio_postprocessing audio target_length pad_end =
     (case (if pad_end then F_pad audio (0, target_length - int (width audio))
            else F_pad audio (target_length - int (width audio), 0)) of
        Inl e \<Rightarrow> Inl e
      | Inr a \<Rightarrow> rearrange_out a)"

subsection \<open>Mask builder\<close>

text \<open>
  \<^verbatim>\<open>str.split(sep)\<close> with a one-character separator: the pieces between the
  separators, the empty string giving one empty piece.
\<close>

fun split_on :: "char \<Rightarrow> string \<Rightarrow> string list" where
  "split_on sep [] = [[]]"
| "split_on sep (c # cs) =
     (if c = sep then [] # split_on sep cs
      else (case split_on sep cs of
              [] \<Rightarrow> [[c]]
            | p # ps \<Rightarrow> (c # p) # ps))"

text \<open>
  \<^verbatim>\<open>int(s)\<close> on an ASCII string, base ten: surrounding white space is dropped, one sign
  may lead, and the digits may be grouped by single underscores. Anything else raises
  \<^verbatim>\<open>ValueError\<close>. (The interpreter's limit on the number of digits is not modelled.)
\<close>

definition is_space :: "char \<Rightarrow> bool" where
  "is_space c \<longleftrightarrow> c \<in> set [CHR 0x09, CHR 0x0A, CHR 0x0B, CHR 0x0C, CHR 0x0D, CHR 0x20]"

definition py_strip :: "string \<Rightarrow> string" where
  "py_strip s = rev (dropWhile is_space (rev (dropWhile is_space s)))"

definition is_digit :: "char \<Rightarrow> bool" where
  "is_digit c \<longleftrightarrow> (48::nat) \<le> of_char c \<and> of_char c \<le> (57::nat)"

definition digit_value :: "char \<Rightarrow> int" where
  "digit_value c = int (of_char c) - 48"

fun parse_digits :: "int \<Rightarrow> bool \<Rightarrow> string \<Rightarrow> int option" where
  "parse_digits acc after_digit [] = (if after_digit then Some acc else None)"
| "parse_digits acc after_digit (c # cs) =
     (if is_digit c then parse_digits (10 * acc + digit_value c) True cs
      else if c = CHR ''_'' \<and> after_digit then parse_digits acc False cs
      else None)"

definition int_of_str :: "string \<Rightarrow> py_error + int" where
  "int_of_str s =
     (case py_strip s of
        [] \<Rightarrow> Inl ValueError
      | c # cs \<Rightarrow>
          (case (if c = CHR ''+'' then parse_digits 0 False cs
                 else if c = CHR ''-'' then map_option uminus (parse_digits 0 False cs)
                 else parse_digits 0 False (c # cs)) of
             None \<Rightarrow> Inl ValueError
           | Some v \<Rightarrow> Inr v))"

text \<open>\<^verbatim>\<open>start, end = map(int, mask.split("-"))\<close>: exactly two pieces, both integers.\<close>

definition parse_interval :: "string \<Rightarrow> py_error + (int \<times> int)" where
  "parse_interval entry =
     (case map int_of_str (split_on CHR ''-'' entry) of
        [Inr start, Inr stop] \<Rightarrow> Inr (start, stop)
      | _ \<Rightarrow> Inl ValueError)"

fun parse_intervals :: "string list \<Rightarrow> py_error + (int \<times> int) list" where
  "parse_intervals [] = Inr []"
| "parse_intervals (entry # entries) =
     (case parse_interval entry of
        Inl e \<Rightarrow> Inl e
      | Inr iv \<Rightarrow>
          (case parse_intervals entries of
             Inl e \<Rightarrow> Inl e
           | Inr ivs \<Rightarrow> Inr (iv # ivs)))"

definition ones_like :: "'a tensor \<Rightarrow> 'b::one tensor" where
  "ones_like x = map_tensor (\<lambda>_. 1) x"

text \<open>The length of the leading axis, and the leading index of the element \<open>j\<close> of row \<open>i\<close>.\<close>

definition lead_len :: "'a tensor \<Rightarrow> nat" where
  "lead_len x = (case lead x of [] \<Rightarrow> width x | l # _ \<Rightarrow> l)"

definition lead_index :: "'a tensor \<Rightarrow> nat \<Rightarrow> nat \<Rightarrow> nat" where
  "lead_index x i j = (case lead x of [] \<Rightarrow> j | _ # rest \<Rightarrow> i div prod_list rest)"

text \<open>A bound of a Python slice over an axis of length \<open>n\<close>: a negative bound counts from
  the end, and every bound is clipped to the axis.\<close>

definition slice_bound :: "int \<Rightarrow> int \<Rightarrow> int" where
  "slice_bound n i = (if i < 0 then max 0 (i + n) else min i n)"

text \<open>\<^verbatim>\<open>mask[start:stop, ...] = 0\<close>.\<close>

definition zero_slice :: "'a::zero tensor \<Rightarrow> int \<Rightarrow> int \<Rightarrow> 'a tensor" where
  "zero_slice m start stop =
     (let n = int (lead_len m);
          lo = slice_bound n start;
          hi = slice_bound n stop
      in \<lparr>lead = lead m, width = width m,
          rows = map (\<lambda>(i, r).
                        map (\<lambda>(j, v). if lo \<le> int (lead_index m i j) \<and> int (lead_index m i j) < hi
                                       then 0 else v)
                            (enumerate 0 r))
                     (enumerate 0 (rows m))\<rparr>)"

fun zero_intervals :: "'a::zero tensor \<Rightarrow> int \<Rightarrow> (int \<times> int) list \<Rightarrow> 'a tensor" where
  "zero_intervals m sample_rate [] = m"
| "zero_intervals m sample_rate ((start, stop) # ivs) =
     (let start_sample = start * sample_rate;
          end_sample = stop * sample_rate
      in zero_intervals (zero_slice m start_sample end_sample) sample_rate ivs)"

definition generate_gradio_audio_mask ::
    "'b tensor \<Rightarrow> int \<Rightarrow> string \<Rightarrow> py_error + 'a::{zero,one} tensor" where
  "generate_gradio_audio_mask audio sample_rate spec =
     (case parse_intervals (split_on CHR '','' spec) of
        Inl e \<Rightarrow> Inl e
      | Inr mask_intervals \<Rightarrow> Inr (zero_intervals (ones_like audio) sample_rate mask_intervals))"

subsection \<open>Amplitude scaler\<close>

text \<open>
  A tensor sample is a finite number, an infinity or a NaN. Finite arithmetic is exact;
  the special values follow IEEE 754. The sign of a zero is not kept: a zero divisor is
  the positive zero, which is what the maximum of absolute values is when it is zero.
\<close>

datatype fl = Fin real | PInf | NInf | NaN

fun fl_abs :: "fl \<Rightarrow> fl" where
  "fl_abs (Fin a) = Fin \<bar>a\<bar>"
| "fl_abs PInf = PInf"
| "fl_abs NInf = PInf"
| "fl_abs NaN = NaN"

text \<open>The maximum of \<^verbatim>\<open>torch.max\<close> propagates a NaN.\<close>

fun fl_max :: "fl \<Rightarrow> fl \<Rightarrow> fl" where
  "fl_max NaN _ = NaN"
| "fl_max _ NaN = NaN"
| "fl_max PInf _ = PInf"
| "fl_max _ PInf = PInf"
| "fl_max NInf b = b"
| "fl_max a NInf = a"
| "fl_max (Fin a) (Fin b) = Fin (max a b)"

fun fl_div :: "fl \<Rightarrow> fl \<Rightarrow> fl" where
  "fl_div NaN _ = NaN"
| "fl_div _ NaN = NaN"
| "fl_div (Fin a) (Fin b) =
     (if b = 0 then (if a = 0 then NaN else if 0 < a then PInf else NInf) else Fin (a / b))"
| "fl_div (Fin a) PInf = Fin 0"
| "fl_div (Fin a) NInf = Fin 0"
| "fl_div PInf (Fin b) = (if 0 \<le> b then PInf else NInf)"
| "fl_div NInf (Fin b) = (if 0 \<le> b then NInf else PInf)"
| "fl_div PInf PInf = NaN"
| "fl_div PInf NInf = NaN"
| "fl_div NInf PInf = NaN"
| "fl_div NInf NInf = NaN"

fun fl_mul :: "fl \<Rightarrow> fl \<Rightarrow> fl" where
  "fl_mul NaN _ = NaN"
| "fl_mul _ NaN = NaN"
| "fl_mul (Fin a) (Fin b) = Fin (a * b)"
| "fl_mul (Fin a) PInf = (if a = 0 then NaN else if 0 < a then PInf else NInf)"
| "fl_mul (Fin a) NInf = (if a = 0 then NaN else if 0 < a then NInf else PInf)"
| "fl_mul PInf (Fin b) = (if b = 0 then NaN else if 0 < b then PInf else NInf)"
| "fl_mul NInf (Fin b) = (if b = 0 then NaN else if 0 < b then NInf else PInf)"
| "fl_mul PInf PInf = PInf"
| "fl_mul PInf NInf = NInf"
| "fl_mul NInf PInf = NInf"
| "fl_mul NInf NInf = PInf"

definition is_finite :: "fl \<Rightarrow> bool" where
  "is_finite v \<longleftrightarrow> (case v of Fin _ \<Rightarrow> True | _ \<Rightarrow> False)"

text \<open>\<^verbatim>\<open>x.max()\<close> over all elements; it raises on a tensor without elements.\<close>

definition tensor_max :: "fl tensor \<Rightarrow> py_error + fl" where
  "tensor_max x = (case elements x of [] \<Rightarrow> Inl RuntimeError | v # vs \<Rightarrow> Inr (foldl fl_max v vs))"

text \<open>
  Tensors live in a store and are named by their position in it. Every operator of
  \<^verbatim>\<open>max_abs_scaling\<close> is out of place: it allocates its result, and the assignment
  \<^verbatim>\<open>x = ...\<close> rebinds the local name only.
\<close>

type_synonym store = "fl tensor list"

definition alloc :: "store \<Rightarrow> fl tensor \<Rightarrow> nat \<times> store" where
  "alloc h t = (length h, h @ [t])"

definition max_abs_scaling :: "store \<Rightarrow> nat \<Rightarrow> fl \<Rightarrow> py_error + (nat \<times> store)" where
  "max_abs_scaling h x max_abs_value =
     (case alloc h (map_tensor fl_abs (h ! x)) of (x_abs, h1) \<Rightarrow>
      (case tensor_max (h1 ! x_abs) of
         Inl e \<Rightarrow> Inl e
       | Inr m \<Rightarrow>
           (case alloc h1 (map_tensor (\<lambda>v. fl_div v m) (h1 ! x)) of (x1, h2) \<Rightarrow>
            (case alloc h2 (map_tensor (\<lambda>v. fl_mul v max_abs_value) (h2 ! x1)) of (x2, h3) \<Rightarrow>
               Inr (x2, h3)))))"

section \<open>Divisibility calculator\<close>

lemma py_int_frames:
  assumes "0 \<le> a" "0 < b"
  shows "py_int (real_of_int a / real_of_int b + 1) = a div b + 1"
proof -
  have "0 \<le> real_of_int a / real_of_int b + 1" using assms by simp
  moreover have "\<lfloor>real_of_int a / real_of_int b + 1\<rfloor> = a div b + 1"
    by (simp add: floor_divide_of_int_eq)
  ultimately show ?thesis by (simp add: py_int_def)
qed

lemma round_up_frames_ge: "n \<le> round_up_frames n d"
proof -
  have "real_of_int n / 2 ^ d * 2 ^ d \<le> real_of_int \<lceil>real_of_int n / 2 ^ d\<rceil> * 2 ^ d"
    by (rule mult_right_mono [OF le_of_int_ceiling]) simp
  then have "real_of_int n \<le> real_of_int \<lceil>real_of_int n / 2 ^ d\<rceil> * 2 ^ d"
    by simp
  then have "real_of_int n \<le> real_of_int (\<lceil>real_of_int n / 2 ^ d\<rceil> * 2 ^ d)"
    by simp
  then show ?thesis unfolding round_up_frames_def by linarith
qed

lemma round_up_frames_dvd: "2 ^ d dvd round_up_frames n d"
  by (simp add: round_up_frames_def)

lemma round_up_frames_fix: "2 ^ d dvd n \<Longrightarrow> round_up_frames n d = n"
  by (auto simp: round_up_frames_def elim!: dvdE)

lemma compute_divisible_length_eq:
  assumes "0 \<le> L" "0 < h"
  shows "compute_divisible_length L h d = Inr ((round_up_frames (L div h + 1) d - 1) * h)"
  using assms
  by (simp add: compute_divisible_length_def py_truediv_def py_int_frames round_up_frames_def)

lemma compute_divisible_length_nonneg:
  assumes "0 \<le> L" "0 < h" "compute_divisible_length L h d = Inr D"
  shows "0 \<le> D"
proof -
  have "0 \<le> L div h" using assms(1,2) by (simp add: pos_imp_zdiv_nonneg_iff)
  then have "1 \<le> round_up_frames (L div h + 1) d"
    using round_up_frames_ge [of "L div h + 1" d] by linarith
  then have "0 \<le> (round_up_frames (L div h + 1) d - 1) * h" using assms(2) by simp
  then show ?thesis using assms compute_divisible_length_eq [of L h d] by simp
qed

text \<open>
  C1 (as stated, refuted): the result is not always at least the input length. The
  scenario of the specification itself, length 1000 with hop 256 and two downsamplings,
  gives 768.
\<close>

theorem compute_divisible_length_below_input:
  "compute_divisible_length 1000 256 2 = Inr 768 \<and> \<not> (1000 \<le> (768::int))"
  by (simp add: compute_divisible_length_def py_truediv_def py_int_def)

text \<open>
  C1 (amended): for a length \<open>L \<ge> 0\<close> and a hop \<open>h > 0\<close> the function returns a multiple
  \<open>D\<close> of the hop with \<open>D \<ge> L - L mod h\<close>, so \<open>D > L - h\<close>, and \<open>D \<ge> L\<close> when the hop
  divides \<open>L\<close>; the frame count \<open>D / h + 1\<close> is divisible by \<open>2 ^ d\<close>.
\<close>

theorem compute_divisible_length_spec:
  assumes "0 \<le> L" "0 < h"
  shows "\<exists>D. compute_divisible_length L h d = Inr D \<and> L - L mod h \<le> D \<and> L - h < D
            \<and> (h dvd L \<longrightarrow> L \<le> D) \<and> h dvd D \<and> 2 ^ d dvd (D div h + 1)"
proof -
  let ?m = "round_up_frames (L div h + 1) d"
  let ?D = "(?m - 1) * h"
  have eq: "compute_divisible_length L h d = Inr ?D" using assms by (rule compute_divisible_length_eq)
  have "L div h \<le> ?m - 1" using round_up_frames_ge [of "L div h + 1" d] by simp
  then have "(L div h) * h \<le> ?D" using assms(2) by (simp add: mult_right_mono)
  moreover have "(L div h) * h = L - L mod h" by (simp add: algebra_simps minus_mod_eq_mult_div)
  ultimately have ge: "L - L mod h \<le> ?D" by simp
  have "L mod h < h" using assms(2) by simp
  then have gt: "L - h < ?D" using ge by linarith
  have "?D div h + 1 = ?m" using assms(2) by simp
  then have dv: "2 ^ d dvd (?D div h + 1)" by (simp add: round_up_frames_dvd)
  show ?thesis using eq ge gt dv by (auto simp: mod_eq_0_iff_dvd)
qed

theorem compute_divisible_length_spec_witness:
  "(0::int) \<le> 1024 \<and> (0::int) < 256
     \<and> compute_divisible_length 1024 256 2 = Inr 1792 \<and> (1024::int) \<le> 1792
     \<and> (256::int) dvd 1792 \<and> (2::int) ^ 2 dvd (1792 div 256 + 1)"
  using compute_divisible_length_spec [of 1024 256 2]
  by (simp add: compute_divisible_length_def py_truediv_def py_int_def)

section \<open>Length aligner\<close>

lemma F_pad_end:
  assumes "0 \<le> int (width x) + p"
  shows "F_pad x (0, p) = Inr \<lparr>lead = lead x, width = nat (int (width x) + p),
           rows = map (\<lambda>r. take (nat (int (width x) + min p 0)) r @ replicate (nat p) 0) (rows x)\<rparr>"
  using assms by (simp add: F_pad_def Let_def min_def)

lemma F_pad_start:
  assumes "0 \<le> int (width x) + p"
  shows "F_pad x (p, 0) = Inr \<lparr>lead = lead x, width = nat (int (width x) + p),
           rows = map (\<lambda>r. replicate (nat p) 0
                            @ take (nat (int (width x) + min p 0)) (drop (nat (- p)) r))
                      (rows x)\<rparr>"
  using assms by (simp add: F_pad_def Let_def min_def)

lemma pad_to_divisible_length_eq:
  assumes "compute_divisible_length (int (width x)) h d = Inr D" "0 \<le> D"
  shows "pad_to_divisible_length x h d pe =
           Inr \<lparr>lead = lead x, width = nat D,
                rows = map (\<lambda>r. if pe then take (nat (min D (int (width x)))) r
                                            @ replicate (nat (D - int (width x))) 0
                                else replicate (nat (D - int (width x))) 0
                                       @ take (nat (min D (int (width x))))
                                           (drop (nat (int (width x) - D)) r))
                           (rows x)\<rparr>"
proof -
  have *: "0 \<le> int (width x) + (D - int (width x))" using assms(2) by simp
  have m: "int (width x) + min (D - int (width x)) 0 = min D (int (width x))"
    by (simp add: min_def)
  show ?thesis
    using assms(1) F_pad_end [OF *] F_pad_start [OF *]
    by (cases pe) (simp_all add: pad_to_divisible_length_def m)
qed

text \<open>
  C4: for a hop \<open>> 0\<close> the aligner returns a tensor whose last axis has exactly the
  divisible length \<open>D\<close> computed from the input's. When \<open>D\<close> is smaller than the input
  length the rows are cropped at the selected edge; when it is larger, zeros are added
  at the selected edge and every original sample is kept.
\<close>

theorem pad_to_divisible_length_result:
  assumes "well_shaped x" "0 < hop_length"
  shows "\<exists>D y. compute_divisible_length (int (width x)) hop_length d = Inr (int D)
           \<and> pad_to_divisible_length x hop_length d pad_end = Inr y
           \<and> width y = D \<and> lead y = lead x
           \<and> (D < width x \<longrightarrow>
                rows y = map (if pad_end then take D else drop (width x - D)) (rows x))
           \<and> (width x < D \<longrightarrow>
                rows y = map (\<lambda>r. if pad_end then r @ replicate (D - width x) 0
                                  else replicate (D - width x) 0 @ r) (rows x))"
proof -
  obtain Di where Di: "compute_divisible_length (int (width x)) hop_length d = Inr Di"
    using compute_divisible_length_eq [of "int (width x)" hop_length d] assms(2) by simp
  have nn: "0 \<le> Di" using compute_divisible_length_nonneg [OF _ assms(2) Di] by simp
  define D where "D = nat Di"
  have DD: "Di = int D" using nn by (simp add: D_def)
  let ?y = "\<lparr>lead = lead x, width = nat Di,
             rows = map (\<lambda>r. if pad_end then take (nat (min Di (int (width x)))) r
                                            @ replicate (nat (Di - int (width x))) 0
                             else replicate (nat (Di - int (width x))) 0
                                    @ take (nat (min Di (int (width x))))
                                        (drop (nat (int (width x) - Di)) r))
                        (rows x)\<rparr>"
  have y: "pad_to_divisible_length x hop_length d pad_end = Inr ?y"
    by (rule pad_to_divisible_length_eq [OF Di nn])
  have len: "\<And>r. r \<in> set (rows x) \<Longrightarrow> length r = width x"
    using assms(1) by (simp add: well_shaped_def)
  have crop: "rows ?y = map (if pad_end then take D else drop (width x - D)) (rows x)"
    if "D < width x"
    using that len by (auto simp: DD min_def nat_diff_distrib)
  have grow: "rows ?y = map (\<lambda>r. if pad_end then r @ replicate (D - width x) 0
                                  else replicate (D - width x) 0 @ r) (rows x)"
    if "width x < D"
    using that len by (auto simp: DD min_def nat_diff_distrib)
  show ?thesis
    using Di y crop grow by (intro exI [of _ D] exI [of _ ?y]) (simp add: DD)
qed

theorem pad_to_divisible_length_result_witness:
  "well_shaped \<lparr>lead = [1, 1], width = 5, rows = [[1, 2, 3, 4, 5::int]]\<rparr> \<and> (0::int) < 2
     \<and> pad_to_divisible_length \<lparr>lead = [1, 1], width = 5, rows = [[1, 2, 3, 4, 5::int]]\<rparr> 2 2 False
         = Inr \<lparr>lead = [1, 1], width = 6, rows = [[0, 1, 2, 3, 4, 5]]\<rparr>"
  using pad_to_divisible_length_result
          [of "\<lparr>lead = [1, 1], width = 5, rows = [[1, 2, 3, 4, 5::int]]\<rparr>" 2 2 False]
  by (simp add: well_shaped_def pad_to_divisible_length_def compute_divisible_length_def
        py_truediv_def py_int_def F_pad_def)

text \<open>
  C3 (as stated, refuted): a buffer of three samples with hop 2 and no downsampling has
  divisible length 2; the aligner neither raises nor returns the buffer unchanged, it
  returns the first two samples.
\<close>

theorem pad_to_divisible_length_negative_pad:
  "compute_divisible_length 3 2 0 = Inr 2
     \<and> pad_to_divisible_length \<lparr>lead = [1, 1], width = 3, rows = [[1, 2, 3::int]]\<rparr> 2 0 True
         = Inr \<lparr>lead = [1, 1], width = 2, rows = [[1, 2]]\<rparr>"
  by (simp add: pad_to_divisible_length_def compute_divisible_length_def
        py_truediv_def py_int_def F_pad_def)

text \<open>
  C3 (amended): when the divisible length \<open>D\<close> computed from a buffer is smaller than
  the buffer's length, the aligner raises nothing and returns the buffer cropped to
  \<open>D\<close> samples: the first \<open>D\<close> of every row when \<open>pad_end\<close>, the last \<open>D\<close> otherwise.
\<close>

theorem pad_to_divisible_length_crops:
  assumes "well_shaped x" "0 < hop_length"
    and "compute_divisible_length (int (width x)) hop_length d = Inr D"
    and "D < int (width x)"
  shows "pad_to_divisible_length x hop_length d pad_end =
           Inr \<lparr>lead = lead x, width = nat D,
                rows = map (if pad_end then take (nat D) else drop (width x - nat D)) (rows x)\<rparr>"
proof -
  have nn: "0 \<le> D" using compute_divisible_length_nonneg [OF _ assms(2,3)] by simp
  have len: "\<And>r. r \<in> set (rows x) \<Longrightarrow> length r = width x"
    using assms(1) by (simp add: well_shaped_def)
  have "map (\<lambda>r. if pad_end then take (nat (min D (int (width x)))) r
                                    @ replicate (nat (D - int (width x))) 0
                  else replicate (nat (D - int (width x))) 0
                         @ take (nat (min D (int (width x))))
                             (drop (nat (int (width x) - D)) r)) (rows x)
          = map (if pad_end then take (nat D) else drop (width x - nat D)) (rows x)"
    using assms(4) nn len by (auto simp: min_def nat_diff_distrib)
  then show ?thesis
    using pad_to_divisible_length_eq [OF assms(3) nn, of pad_end] by simp
qed

theorem pad_to_divisible_length_crops_witness:
  "well_shaped \<lparr>lead = [1, 1], width = 3, rows = [[1, 2, 3::int]]\<rparr> \<and> (0::int) < 2
     \<and> compute_divisible_length (int 3) 2 0 = Inr 2 \<and> (2::int) < int 3
     \<and> pad_to_divisible_length \<lparr>lead = [1, 1], width = 3, rows = [[1, 2, 3::int]]\<rparr> 2 0 False
         = Inr \<lparr>lead = [1, 1], width = 2, rows = [[2, 3]]\<rparr>"
  using pad_to_divisible_length_crops
          [of "\<lparr>lead = [1, 1], width = 3, rows = [[1, 2, 3::int]]\<rparr>" 2 0 2 False]
  by (simp add: well_shaped_def compute_divisible_length_def py_truediv_def py_int_def)

text \<open>
  C9: a buffer whose length already equals the divisible length computed from it is
  returned as it is, so its length does not grow: the pad amount is zero.
\<close>

theorem pad_to_divisible_length_aligned:
  assumes "well_shaped x"
    and "compute_divisible_length (int (width x)) hop_length d = Inr (int (width x))"
  shows "pad_to_divisible_length x hop_length d pad_end = Inr x"
proof -
  have len: "\<And>r. r \<in> set (rows x) \<Longrightarrow> length r = width x"
    using assms(1) by (simp add: well_shaped_def)
  have "map (\<lambda>r. if pad_end then take (nat (min (int (width x)) (int (width x)))) r
                                    @ replicate (nat (int (width x) - int (width x))) 0
                  else replicate (nat (int (width x) - int (width x))) 0
                         @ take (nat (min (int (width x)) (int (width x))))
                             (drop (nat (int (width x) - int (width x))) r)) (rows x)
          = rows x"
    using len by (simp add: map_idI)
  then show ?thesis
    using pad_to_divisible_length_eq [OF assms(2), of pad_end] by simp
qed

theorem pad_to_divisible_length_aligned_witness:
  "well_shaped \<lparr>lead = [1, 1], width = 2, rows = [[7, 9::int]]\<rparr>
     \<and> compute_divisible_length (int 2) 2 1 = Inr (int 2)
     \<and> pad_to_divisible_length \<lparr>lead = [1, 1], width = 2, rows = [[7, 9::int]]\<rparr> 2 1 True
         = Inr \<lparr>lead = [1, 1], width = 2, rows = [[7, 9]]\<rparr>"
  using pad_to_divisible_length_aligned
          [of "\<lparr>lead = [1, 1], width = 2, rows = [[7, 9::int]]\<rparr>" 2 1 True]
  by (simp add: well_shaped_def compute_divisible_length_def py_truediv_def py_int_def)

text \<open>The aligner is idempotent: its output is aligned, and aligning it again changes nothing.\<close>

lemma compute_divisible_length_idem:
  assumes "0 \<le> L" "0 < h" "compute_divisible_length L h d = Inr D"
  shows "compute_divisible_length D h d = Inr D"
proof -
  let ?m = "round_up_frames (L div h + 1) d"
  have D: "D = (?m - 1) * h" using assms compute_divisible_length_eq [of L h d] by simp
  have nn: "0 \<le> D" using assms by (rule compute_divisible_length_nonneg)
  have "D div h + 1 = ?m" using assms(2) by (simp add: D)
  then have "round_up_frames (D div h + 1) d = ?m"
    by (simp add: round_up_frames_fix round_up_frames_dvd)
  then show ?thesis using compute_divisible_length_eq [OF nn assms(2), of d] by (simp add: D)
qed

lemma pad_to_divisible_length_idem:
  assumes "well_shaped x" "0 < h" "pad_to_divisible_length x h d pe = Inr y"
  shows "pad_to_divisible_length y h d pe = Inr y"
proof -
  obtain D where D: "compute_divisible_length (int (width x)) h d = Inr D"
    using compute_divisible_length_eq [of "int (width x)" h d] assms(2) by simp
  have nn: "0 \<le> D" using compute_divisible_length_nonneg [OF _ assms(2) D] by simp
  have len: "\<And>r. r \<in> set (rows x) \<Longrightarrow> length r = width x"
    using assms(1) by (simp add: well_shaped_def)
  have y: "width y = nat D" "\<And>r. r \<in> set (rows y) \<Longrightarrow> length r = nat D"
    using pad_to_divisible_length_eq [OF D nn, of pe] assms(3) len nn
    by (auto simp: min_def)
  have D': "compute_divisible_length (int (width y)) h d = Inr (int (width y))"
    using compute_divisible_length_idem [OF _ assms(2) D] nn y(1) by simp
  have "map (\<lambda>r. if pe then take (nat (min (int (width y)) (int (width y)))) r
                              @ replicate (nat (int (width y) - int (width y))) 0
                  else replicate (nat (int (width y) - int (width y))) 0
                         @ take (nat (min (int (width y)) (int (width y))))
                             (drop (nat (int (width y) - int (width y))) r)) (rows y)
          = rows y"
    using y by (simp add: map_idI)
  then show ?thesis
    using pad_to_divisible_length_eq [OF D', of pe] by simp
qed

section \<open>Egress denormalizer\<close>

lemma length_concat_grid: "length (concat (map (\<lambda>t. map (f t) [0..<B]) [0..<L])) = L * B"
  by (induction L) simp_all

lemma grid_index_less:
  assumes "t < L" "b < (B::nat)"
  shows "t * B + b < L * B"
proof -
  have "t * B + b < Suc t * B" using assms(2) by simp
  also have "Suc t * B \<le> L * B" using assms(1) by (intro mult_le_mono1) simp
  finally show ?thesis .
qed

lemma nth_concat_grid:
  assumes "t < L" "b < B"
  shows "concat (map (\<lambda>t. map (f t) [0..<B]) [0..<L]) ! (t * B + b) = f t b"
  using assms
proof (induction L)
  case 0
  then show ?case by simp
next
  case (Suc L)
  show ?case
  proof (cases "t < L")
    case True
    then have "t * B + b < L * B" using Suc.prems(2) by (rule grid_index_less)
    then show ?thesis using Suc.IH [OF True Suc.prems(2)]
      by (simp add: nth_append length_concat_grid)
  next
    case False
    then have "t = L" using Suc.prems(1) by simp
    then show ?thesis using Suc.prems(2) by (simp add: nth_append length_concat_grid)
  qed
qed

lemma F_pad_none:
  assumes "well_shaped x"
  shows "F_pad x (0, 0) = Inr x"
proof -
  have "map (\<lambda>r. take (width x) r) (rows x) = rows x"
    using assms by (simp add: well_shaped_def map_idI)
  then show ?thesis by (simp add: F_pad_def)
qed

text \<open>
  C6 (as stated, refuted): with two batch entries \<open>[1, 2]\<close> and \<open>[3, 4]\<close> of one channel,
  the output is \<open>1, 3, 2, 4\<close>. Its row \<open>0 * L + 1\<close> holds 3, the first sample of the
  second batch entry, and not 2, the second sample of the first.
\<close>

theorem gradio_audio_postprocessing_interleaves:
  "gradio_audio_postprocessing \<lparr>lead = [2, 1], width = 2, rows = [[1, 2], [3, 4::int]]\<rparr> 2 True
     = Inr \<lparr>lead = [4], width = 1, rows = [[1], [3], [2], [4]]\<rparr>
   \<and> [[1], [3], [2], [4::int]] ! (0 * 2 + 1) ! 0 \<noteq> [[1, 2], [3, 4]] ! (0 * 1 + 0) ! 1"
  by (simp add: gradio_audio_postprocessing_def F_pad_def rearrange_out_def upt_rec)

text \<open>
  C6 (amended): a (batch, channel, time) tensor of sizes \<open>B\<close>, \<open>C\<close>, \<open>L\<close>, with the target
  length \<open>L\<close>, is flattened into a (time, channel) array of shape \<open>(L * B, C)\<close> in which
  the batch is folded into the time axis time-major, the batch entries interleaved:
  the output at \<open>(t * B + b, c)\<close> is the input at \<open>(b, c, t)\<close>.
\<close>

theorem gradio_audio_postprocessing_layout:
  assumes "well_shaped x" "lead x = [B, C]"
  shows "\<exists>y. gradio_audio_postprocessing x (int (width x)) pad_end = Inr y
           \<and> lead y = [width x * B] \<and> width y = C \<and> length (rows y) = width x * B
           \<and> (\<forall>t<width x. \<forall>b<B. length (rows y ! (t * B + b)) = C
                 \<and> (\<forall>c<C. rows y ! (t * B + b) ! c = rows x ! (b * C + c) ! t))"
proof -
  let ?rows = "concat (map (\<lambda>t. map (\<lambda>b. map (\<lambda>c. rows x ! (b * C + c) ! t) [0..<C]) [0..<B])
                           [0..<width x])"
  let ?y = "\<lparr>lead = [width x * B], width = C, rows = ?rows\<rparr>"
  have "gradio_audio_postprocessing x (int (width x)) pad_end = rearrange_out x"
    using F_pad_none [OF assms(1)] by (simp add: gradio_audio_postprocessing_def)
  then have y: "gradio_audio_postprocessing x (int (width x)) pad_end = Inr ?y"
    using assms(2) by (simp add: rearrange_out_def)
  have row: "?rows ! (t * B + b) = map (\<lambda>c. rows x ! (b * C + c) ! t) [0..<C]"
    if "t < width x" "b < B" for t b
    using that by (rule nth_concat_grid)
  show ?thesis
    using y row by (intro exI [of _ ?y]) (simp add: length_concat_grid)
qed

theorem gradio_audio_postprocessing_layout_witness:
  "well_shaped \<lparr>lead = [1, 2], width = 2, rows = [[1, 2], [3, 4::int]]\<rparr>
     \<and> lead \<lparr>lead = [1, 2], width = 2, rows = [[1, 2], [3, 4::int]]\<rparr> = [1, 2]
     \<and> gradio_audio_postprocessing \<lparr>lead = [1, 2], width = 2, rows = [[1, 2], [3, 4::int]]\<rparr>
          (int 2) False
         = Inr \<lparr>lead = [2], width = 2, rows = [[1, 3], [2, 4]]\<rparr>"
  using gradio_audio_postprocessing_layout
          [of "\<lparr>lead = [1, 2], width = 2, rows = [[1, 2], [3, 4::int]]\<rparr>" 1 2 False]
  by (simp add: well_shaped_def gradio_audio_postprocessing_def F_pad_def rearrange_out_def
        upt_rec)

section \<open>Ingest normalizer\<close>

text \<open>
  Integral samples are divided by the largest value of their type: the result is at
  most 1, and at least the type's least value over its largest.
\<close>

lemma to_float_bounds:
  assumes "is_integral (dtype audio)" "holds_dtype (dtype audio) (data audio)"
    and "v \<in> set (elements (to_float audio))"
  shows "real_of_int (iinfo_min (dtype audio)) / real_of_int (iinfo_max (dtype audio)) \<le> v \<and> v \<le> 1"
proof -
  have pos: "0 < real_of_int (iinfo_max (dtype audio))"
    using assms(1) by (cases "dtype audio") simp_all
  obtain u where u: "u \<in> set (elements (data audio))" "v = u / real_of_int (iinfo_max (dtype audio))"
    using assms(1,3) by (auto simp: to_float_def map_tensor_def elements_def)
  have "real_of_int (iinfo_min (dtype audio)) \<le> u" "u \<le> real_of_int (iinfo_max (dtype audio))"
    using assms(1,2) u(1) by (auto simp: holds_dtype_def)
  then show ?thesis using pos u(2) by (simp add: divide_right_mono)
qed

text \<open>
  C5 (the code departs from it): the rescaling divides by \<^verbatim>\<open>np.iinfo(dtype).max\<close>, so
  the most negative value of a signed type leaves the interval. For 16-bit samples,
  \<open>-32768\<close> becomes \<open>-32768 / 32767\<close>, which is below \<open>-1\<close>.
\<close>

theorem to_float_int16_min:
  "iinfo_min Int16 = - 32768
   \<and> to_float \<lparr>dtype = Int16, data = \<lparr>lead = [], width = 1, rows = [[- 32768]]\<rparr>\<rparr>
       = \<lparr>lead = [], width = 1, rows = [[- 32768 / 32767]]\<rparr>
   \<and> - 32768 / 32767 < (- 1 :: real)"
  by (simp add: to_float_def map_tensor_def)

section \<open>Round trip through both normalizers\<close>

lemma round_up_frames_0: "round_up_frames k 0 = k"
  by (simp add: round_up_frames_def)

lemma column_of_row:
  assumes "length r = n"
  shows "concat (map (\<lambda>t. map (\<lambda>b. map (\<lambda>c. [r] ! (b * 1 + c) ! t) [0..<1]) [0..<1]) [0..<n])
           = map (\<lambda>v. [v]) r"
proof -
  have "concat (map (\<lambda>t. map (\<lambda>b. map (\<lambda>c. [r] ! (b * 1 + c) ! t) [0..<1]) [0..<1]) [0..<n])
          = map (\<lambda>t. [r ! t]) [0..<n]"
    by (induction n) simp_all
  also have "\<dots> = map (\<lambda>v. [v]) (map ((!) r) [0..<n])" by simp
  also have "\<dots> = map (\<lambda>v. [v]) r" using assms map_nth [of r] by simp
  finally show ?thesis .
qed

lemma postprocessing_mono:
  fixes r :: "'a::zero list"
  assumes "length r = k" "k \<le> n"
  shows "gradio_audio_postprocessing \<lparr>lead = [1, 1], width = k, rows = [r]\<rparr> (int n) pe
           = Inr \<lparr>lead = [n], width = 1,
                  rows = map (\<lambda>v. [v]) (if pe then r @ replicate (n - k) 0
                                         else replicate (n - k) 0 @ r)\<rparr>"
proof -
  let ?x = "\<lparr>lead = [1, 1], width = k, rows = [r]\<rparr>"
  let ?r' = "if pe then r @ replicate (n - k) 0 else replicate (n - k) 0 @ r"
  have ge: "0 \<le> int (width ?x) + (int n - int (width ?x))" by simp
  have len: "length ?r' = n" using assms by simp
  have pad: "(if pe then F_pad ?x (0, int n - int (width ?x)) else F_pad ?x (int n - int (width ?x), 0))
               = Inr \<lparr>lead = [1, 1], width = n, rows = [?r']\<rparr>"
    using assms F_pad_end [OF ge] F_pad_start [OF ge]
    by (cases pe) (simp_all add: min_def nat_diff_distrib)
  show ?thesis
    unfolding gradio_audio_postprocessing_def pad
    using column_of_row [OF len] by (simp add: rearrange_out_def)
qed

lemma preprocessing_identity_path:
  fixes xs :: "real list"
  assumes "\<not> is_integral (dtype audio)"
    and "data audio = \<lparr>lead = [], width = length xs, rows = [xs]\<rparr>"
    and "0 < r" "0 < h"
  shows "gradio_audio_preprocessing interp audio r r (int (length xs)) h 0 cast pe
           = Inr \<lparr>lead = [1, 1], width = length xs div nat h * nat h,
                  rows = [map cast (if pe then take (length xs div nat h * nat h) xs
                                     else drop (length xs - length xs div nat h * nat h) xs)]\<rparr>"
proof -
  let ?n = "length xs"
  let ?m = "?n div nat h * nat h"
  let ?a1 = "\<lparr>lead = [1, 1], width = ?n, rows = [xs]\<rparr>"
  have s1: "rearrange_in (to_float audio) = Inr ?a1"
    using assms(1,2) by (simp add: to_float_def rearrange_in_def)
  have s2: "AF_resample interp ?a1 r r = Inr ?a1"
    using assms(3) by (simp add: AF_resample_def)
  have "real_of_int (int ?n * r) / real_of_int r = real ?n" using assms(3) by simp
  then have s3: "py_truediv (int ?n * r) r = Inr (real ?n)"
    using assms(3) by (simp add: py_truediv_def)
  have s4: "py_int (real ?n) = int ?n" by (simp add: py_int_def)
  have ws: "well_shaped ?a1" by (simp add: well_shaped_def)
  have s5: "F_pad ?a1 (0, 0) = Inr ?a1" using ws by (rule F_pad_none)
  have D: "int ?m = int ?n div h * h" using assms(4) by (simp add: zdiv_int)
  have "compute_divisible_length (int ?n) h 0 = Inr (int ?m)"
    unfolding D using compute_divisible_length_eq [of "int ?n" h 0] assms(4)
    by (simp add: round_up_frames_0)
  then have cdl: "compute_divisible_length (int (width ?a1)) h 0 = Inr (int ?m)"
    by simp
  have le: "?m \<le> ?n" by simp
  have s6: "pad_to_divisible_length ?a1 h 0 pe
              = Inr \<lparr>lead = [1, 1], width = ?m,
                     rows = [if pe then take ?m xs else drop (?n - ?m) xs]\<rparr>"
    using pad_to_divisible_length_eq [OF cdl, of pe] le
    by (simp add: min_def nat_diff_distrib del: of_nat_mult)
  show ?thesis
    using s1 s2 s3 s4 s5 s6
    by (cases pe) (simp_all add: gradio_audio_preprocessing_def map_tensor_def)
qed

text \<open>
  C2 (as stated, refuted): three floating samples \<open>1, 2, 3\<close> with hop 2 come back as
  \<open>1, 2, 0\<close>, since the aligner crops to a multiple of the hop before the egress pads
  with zeros; and a 16-bit integral sample \<open>16384\<close> comes back rescaled, as
  \<open>16384 / 32767\<close>.
\<close>

theorem gradio_round_trip_loses_samples:
  "gradio_audio_preprocessing (\<lambda>orig new x. x)
       \<lparr>dtype = Float32, data = \<lparr>lead = [], width = 3, rows = [[1, 2, 3]]\<rparr>\<rparr>
       16000 16000 3 2 0 id True
     = Inr \<lparr>lead = [1, 1], width = 2, rows = [[1, 2]]\<rparr>
   \<and> gradio_audio_postprocessing \<lparr>lead = [1, 1], width = 2, rows = [[1, 2::real]]\<rparr> 3 True
     = Inr \<lparr>lead = [3], width = 1, rows = [[1], [2], [0]]\<rparr>
   \<and> gradio_audio_preprocessing (\<lambda>orig new x. x)
       \<lparr>dtype = Int16, data = \<lparr>lead = [], width = 1, rows = [[16384]]\<rparr>\<rparr>
       16000 16000 1 1 0 id True
     = Inr \<lparr>lead = [1, 1], width = 1, rows = [[16384 / 32767]]\<rparr>
   \<and> gradio_audio_postprocessing \<lparr>lead = [1, 1], width = 1, rows = [[16384 / 32767 :: real]]\<rparr> 1 True
     = Inr \<lparr>lead = [1], width = 1, rows = [[16384 / 32767]]\<rparr>"
  by (simp add: gradio_audio_preprocessing_def gradio_audio_postprocessing_def to_float_def
        rearrange_in_def rearrange_out_def AF_resample_def py_truediv_def py_int_def F_pad_def
        pad_to_divisible_length_def compute_divisible_length_def map_tensor_def upt_rec)

text \<open>
  C2 (amended): for a one-dimensional array \<open>x\<close> of a floating type, equal positive
  rates, a hop \<open>h > 0\<close> and no downsampling, the ingest with target length \<open>len x\<close>
  followed by the egress with the same target length and edge returns the column array
  of shape \<open>(len x, 1)\<close> that holds the samples of \<open>x\<close> converted to the requested type,
  with the \<open>len x mod h\<close> samples at the selected edge replaced by zeros. When \<open>h\<close>
  divides \<open>len x\<close> it holds every sample of \<open>x\<close>, converted.
\<close>

theorem gradio_round_trip:
  fixes xs :: "real list"
  assumes "\<not> is_integral (dtype audio)"
    and "data audio = \<lparr>lead = [], width = length xs, rows = [xs]\<rparr>"
    and "0 < r" "0 < h"
  shows "\<exists>y. gradio_audio_preprocessing interp audio r r (int (length xs)) h 0 cast pad_end = Inr y
           \<and> gradio_audio_postprocessing y (int (length xs)) pad_end
               = Inr \<lparr>lead = [length xs], width = 1,
                      rows = map (\<lambda>v. [v])
                        (if pad_end
                         then map cast (take (length xs div nat h * nat h) xs)
                                @ replicate (length xs mod nat h) 0
                         else replicate (length xs mod nat h) 0
                                @ map cast (drop (length xs mod nat h) xs))\<rparr>
           \<and> (h dvd int (length xs) \<longrightarrow>
                gradio_audio_postprocessing y (int (length xs)) pad_end
                  = Inr \<lparr>lead = [length xs], width = 1, rows = map (\<lambda>v. [cast v]) xs\<rparr>)"
proof -
  let ?n = "length xs"
  let ?m = "?n div nat h * nat h"
  let ?r = "map cast (if pad_end then take ?m xs else drop (?n - ?m) xs)"
  let ?y = "\<lparr>lead = [1, 1], width = ?m, rows = [?r]\<rparr>"
  have pre: "gradio_audio_preprocessing interp audio r r (int ?n) h 0 cast pad_end = Inr ?y"
    using assms by (rule preprocessing_identity_path)
  have le: "?m \<le> ?n" by simp
  have nm: "?n - ?m = ?n mod nat h" by (simp add: minus_div_mult_eq_mod)
  have len: "length ?r = ?m" using le by auto
  have post: "gradio_audio_postprocessing ?y (int ?n) pad_end
                = Inr \<lparr>lead = [?n], width = 1,
                      rows = map (\<lambda>v. [v])
                        (if pad_end then map cast (take ?m xs) @ replicate (?n mod nat h) 0
                         else replicate (?n mod nat h) 0 @ map cast (drop (?n mod nat h) xs))\<rparr>"
    using postprocessing_mono [OF len le, of pad_end] by (simp add: nm)
  have dv: "?n mod nat h = 0 \<and> ?m = ?n" if "h dvd int ?n"
  proof -
    have "int (nat h) dvd int ?n" using that assms(4) by simp
    then have "nat h dvd ?n" by (simp only: int_dvd_int_iff)
    then show ?thesis by simp
  qed
  show ?thesis
    using pre post dv by (intro exI [of _ ?y]) (auto simp: comp_def)
qed

theorem gradio_round_trip_witness:
  "\<not> is_integral (dtype \<lparr>dtype = Float64, data = \<lparr>lead = [], width = 4, rows = [[1, 2, 3, 4]]\<rparr>\<rparr>)
   \<and> (0::int) < 44100 \<and> (0::int) < 2
   \<and> gradio_audio_preprocessing (\<lambda>orig new x. x)
         \<lparr>dtype = Float64, data = \<lparr>lead = [], width = 4, rows = [[1, 2, 3, 4]]\<rparr>\<rparr>
         44100 44100 4 2 0 id False
       = Inr \<lparr>lead = [1, 1], width = 4, rows = [[1, 2, 3, 4]]\<rparr>
   \<and> gradio_audio_postprocessing \<lparr>lead = [1, 1], width = 4, rows = [[1, 2, 3, 4::real]]\<rparr> 4 False
       = Inr \<lparr>lead = [4], width = 1, rows = [[1], [2], [3], [4]]\<rparr>"
  using gradio_round_trip
          [where audio = "\<lparr>dtype = Float64, data = \<lparr>lead = [], width = 4, rows = [[1, 2, 3, 4]]\<rparr>\<rparr>"
             and xs = "[1, 2, 3, 4]" and r = 44100 and h = 2 and interp = "\<lambda>orig new x. x"
             and cast = id and pad_end = False]
  by (simp add: gradio_audio_preprocessing_def gradio_audio_postprocessing_def to_float_def
        rearrange_in_def rearrange_out_def AF_resample_def py_truediv_def py_int_def F_pad_def
        pad_to_divisible_length_def compute_divisible_length_def map_tensor_def upt_rec)

section \<open>Amplitude scaler\<close>

lemma elements_map_tensor: "elements (map_tensor f x) = map f (elements x)"
  by (simp add: elements_def map_tensor_def map_concat)

lemma max_abs_scaling_eq:
  assumes "x < length h" "tensor_max (map_tensor fl_abs (h ! x)) = Inr m"
  shows "max_abs_scaling h x v =
           Inr (length h + 2,
                h @ [map_tensor fl_abs (h ! x),
                     map_tensor (\<lambda>s. fl_div s m) (h ! x),
                     map_tensor (\<lambda>s. fl_mul s v) (map_tensor (\<lambda>s. fl_div s m) (h ! x))])"
  using assms by (simp add: max_abs_scaling_def alloc_def nth_append)

lemma foldl_fl_max_zero:
  assumes "\<forall>s \<in> set vs. s = Fin 0"
  shows "foldl fl_max (Fin 0) (map fl_abs vs) = Fin 0"
  using assms by (induction vs) simp_all

lemma tensor_max_zero:
  assumes "elements t \<noteq> []" "\<forall>s \<in> set (elements t). s = Fin 0"
  shows "tensor_max (map_tensor fl_abs t) = Inr (Fin 0)"
proof -
  obtain s ss where e: "elements t = s # ss" using assms(1) by (cases "elements t") auto
  then have "s = Fin 0" "\<forall>s \<in> set ss. s = Fin 0" using assms(2) by simp_all
  then show ?thesis
    by (simp add: tensor_max_def elements_map_tensor e foldl_fl_max_zero)
qed

lemma finite_elements:
  assumes "\<forall>s \<in> set es. is_finite s"
  shows "\<exists>rs. es = map Fin rs"
  using assms
proof (induction es)
  case Nil
  then show ?case by simp
next
  case (Cons s es)
  then obtain rs where "es = map Fin rs" by auto
  moreover obtain a where "s = Fin a" using Cons.prems by (cases s) (simp_all add: is_finite_def)
  ultimately have "s # es = map Fin (a # rs)" by simp
  then show ?case by (rule exI [of _ "a # rs"])
qed

lemma foldl_fl_max_Fin: "foldl fl_max (Fin a) (map Fin rs) = Fin (foldl max a rs)"
  by (induction rs arbitrary: a) simp_all

lemma foldl_max_Max: "foldl max a rs = Max (set (a # rs))"
proof -
  have "(\<lambda>x s. max s x) = (max :: 'a \<Rightarrow> 'a \<Rightarrow> 'a)"
    by (intro ext) (rule max.commute)
  then show ?thesis
    unfolding Max.set_eq_fold foldl_conv_fold by simp
qed

lemma tensor_max_Fin:
  assumes "elements t = map Fin qs" "qs \<noteq> []"
  shows "tensor_max t = Inr (Fin (Max (set qs)))"
proof -
  obtain a rs where q: "qs = a # rs" using assms(2) by (cases qs) auto
  show ?thesis
    unfolding tensor_max_def assms(1) q
    by (simp add: foldl_fl_max_Fin foldl_max_Max del: set_simps)
qed

lemma Max_scaled:
  fixes A :: "real set"
  assumes "finite A" "A \<noteq> {}" "0 < Max A" "0 \<le> c"
  shows "Max ((\<lambda>a. a / Max A * c) ` A) = c"
proof -
  have "mono (\<lambda>a. a / Max A * c)"
    using assms(3,4) by (intro monoI mult_right_mono divide_right_mono) simp_all
  then have "(\<lambda>a. a / Max A * c) (Max A) = Max ((\<lambda>a. a / Max A * c) ` A)"
    using assms(1,2) by (rule mono_Max_commute)
  moreover have "Max A / Max A * c = c" using assms(3) by simp
  ultimately show ?thesis by simp
qed

text \<open>
  C7 (as stated, refuted): on a buffer of two zeros the scaler raises nothing and does
  not return the zeros: the maximum is zero, every quotient is \<open>0 / 0\<close>, and the result
  holds two NaNs.
\<close>

theorem max_abs_scaling_zero_gives_nan:
  "max_abs_scaling [\<lparr>lead = [], width = 2, rows = [[Fin 0, Fin 0]]\<rparr>] 0 (Fin (5 / 100))
     = Inr (3, [\<lparr>lead = [], width = 2, rows = [[Fin 0, Fin 0]]\<rparr>,
                \<lparr>lead = [], width = 2, rows = [[Fin 0, Fin 0]]\<rparr>,
                \<lparr>lead = [], width = 2, rows = [[NaN, NaN]]\<rparr>,
                \<lparr>lead = [], width = 2, rows = [[NaN, NaN]]\<rparr>])"
  by (simp add: max_abs_scaling_def alloc_def map_tensor_def tensor_max_def elements_def)

text \<open>
  C7 (amended): for every buffer that has at least one sample and whose samples are all
  zero, the scaler raises nothing and returns a new buffer of the same shape in which
  every sample is NaN.
\<close>

theorem max_abs_scaling_zero_buffer:
  assumes "x < length h" "elements (h ! x) \<noteq> []" "\<forall>s \<in> set (elements (h ! x)). s = Fin 0"
  shows "\<exists>x' h'. max_abs_scaling h x v = Inr (x', h') \<and> x' < length h'
           \<and> lead (h' ! x') = lead (h ! x) \<and> width (h' ! x') = width (h ! x)
           \<and> rows (h' ! x') = map (map (\<lambda>s. NaN)) (rows (h ! x))"
proof -
  let ?y = "map_tensor (\<lambda>s. fl_mul s v) (map_tensor (\<lambda>s. fl_div s (Fin 0)) (h ! x))"
  let ?h' = "h @ [map_tensor fl_abs (h ! x), map_tensor (\<lambda>s. fl_div s (Fin 0)) (h ! x), ?y]"
  have m: "tensor_max (map_tensor fl_abs (h ! x)) = Inr (Fin 0)"
    using assms(2,3) by (rule tensor_max_zero)
  have eq: "max_abs_scaling h x v = Inr (length h + 2, ?h')"
    using assms(1) m by (rule max_abs_scaling_eq)
  have nth: "?h' ! (length h + 2) = ?y" by (simp add: nth_append)
  have zero: "s = Fin 0" if "r \<in> set (rows (h ! x))" "s \<in> set r" for r s
    using assms(3) that by (auto simp: elements_def)
  have "map (\<lambda>s. fl_mul (fl_div s (Fin 0)) v) r = map (\<lambda>s. NaN) r"
    if "r \<in> set (rows (h ! x))" for r
  proof (rule map_cong [OF refl])
    fix s assume "s \<in> set r"
    then have "s = Fin 0" using that by (rule zero [rotated])
    then show "fl_mul (fl_div s (Fin 0)) v = NaN" by simp
  qed
  then have "map (map (\<lambda>s. fl_mul (fl_div s (Fin 0)) v)) (rows (h ! x))
               = map (map (\<lambda>s. NaN)) (rows (h ! x))"
    by (rule map_cong [OF refl])
  then have rows: "rows ?y = map (map (\<lambda>s. NaN)) (rows (h ! x))"
    by (simp add: map_tensor_def comp_def)
  have shp: "lead ?y = lead (h ! x)" "width ?y = width (h ! x)"
    by (simp_all add: map_tensor_def)
  have "max_abs_scaling h x v = Inr (length h + 2, ?h') \<and> length h + 2 < length ?h'
          \<and> lead (?h' ! (length h + 2)) = lead (h ! x)
          \<and> width (?h' ! (length h + 2)) = width (h ! x)
          \<and> rows (?h' ! (length h + 2)) = map (map (\<lambda>s. NaN)) (rows (h ! x))"
    unfolding nth using eq rows shp by simp
  then show ?thesis by blast
qed

theorem max_abs_scaling_zero_buffer_witness:
  "(0::nat) < length [\<lparr>lead = [1], width = 1, rows = [[Fin 0]]\<rparr>]
   \<and> elements ([\<lparr>lead = [1], width = 1, rows = [[Fin 0]]\<rparr>] ! 0) = [Fin 0]
   \<and> max_abs_scaling [\<lparr>lead = [1], width = 1, rows = [[Fin 0]]\<rparr>] 0 (Fin 1)
        = Inr (3, [\<lparr>lead = [1], width = 1, rows = [[Fin 0]]\<rparr>,
                   \<lparr>lead = [1], width = 1, rows = [[Fin 0]]\<rparr>,
                   \<lparr>lead = [1], width = 1, rows = [[NaN]]\<rparr>,
                   \<lparr>lead = [1], width = 1, rows = [[NaN]]\<rparr>])"
  using max_abs_scaling_zero_buffer [of 0 "[\<lparr>lead = [1], width = 1, rows = [[Fin 0]]\<rparr>]" "Fin 1"]
  by (simp add: max_abs_scaling_def alloc_def map_tensor_def tensor_max_def elements_def)

text \<open>
  C10 (as stated, refuted): a buffer may hold an infinity. The buffer \<open>inf, 1\<close> has a
  sample that is not zero; its maximum is infinite, \<open>inf / inf\<close> is NaN and \<open>1 / inf\<close>
  is 0, so the result is \<open>NaN, 0\<close> and its global maximum absolute value is NaN, not
  \<open>0.05\<close>.
\<close>

theorem max_abs_scaling_infinite_sample:
  "Fin 1 \<noteq> Fin 0
   \<and> max_abs_scaling [\<lparr>lead = [], width = 2, rows = [[PInf, Fin 1]]\<rparr>] 0 (Fin (5 / 100))
        = Inr (3, [\<lparr>lead = [], width = 2, rows = [[PInf, Fin 1]]\<rparr>,
                   \<lparr>lead = [], width = 2, rows = [[PInf, Fin 1]]\<rparr>,
                   \<lparr>lead = [], width = 2, rows = [[NaN, Fin 0]]\<rparr>,
                   \<lparr>lead = [], width = 2, rows = [[NaN, Fin 0]]\<rparr>])
   \<and> tensor_max (map_tensor fl_abs \<lparr>lead = [], width = 2, rows = [[NaN, Fin 0]]\<rparr>) = Inr NaN
   \<and> NaN \<noteq> Fin (5 / 100)"
  by (simp add: max_abs_scaling_def alloc_def map_tensor_def tensor_max_def elements_def)

text \<open>
  C10 (amended): for every buffer whose samples are all finite, with at least one
  sample that is not zero, the result of scaling to \<open>0.05\<close> has the global maximum
  absolute value \<open>0.05\<close>, in exact arithmetic; the store is only extended, so the input
  buffer is not changed.
\<close>

theorem max_abs_scaling_peak:
  assumes "x < length h"
    and "\<forall>s \<in> set (elements (h ! x)). is_finite s"
    and "\<exists>s \<in> set (elements (h ! x)). s \<noteq> Fin 0"
  shows "\<exists>x' h'. max_abs_scaling h x (Fin (5 / 100)) = Inr (x', h') \<and> x' < length h'
           \<and> tensor_max (map_tensor fl_abs (h' ! x')) = Inr (Fin (5 / 100))
           \<and> length h \<le> length h' \<and> (\<forall>a<length h. h' ! a = h ! a)"
proof -
  obtain rs where rs: "elements (h ! x) = map Fin rs"
    using finite_elements [OF assms(2)] by blast
  obtain r where r: "r \<in> set rs" "r \<noteq> 0" using assms(3) rs by auto
  then have ne: "rs \<noteq> []" by auto
  let ?A = "abs ` set rs"
  let ?M = "Max ?A"
  have "\<bar>r\<bar> \<le> ?M" using r(1) by (intro Max_ge) auto
  then have Mpos: "0 < ?M" using r(2) by linarith
  have "elements (map_tensor fl_abs (h ! x)) = map Fin (map abs rs)"
    by (simp add: elements_map_tensor rs)
  then have m: "tensor_max (map_tensor fl_abs (h ! x)) = Inr (Fin ?M)"
    using tensor_max_Fin [of "map_tensor fl_abs (h ! x)" "map abs rs"] ne by simp
  let ?y = "map_tensor (\<lambda>s. fl_mul s (Fin (5 / 100))) (map_tensor (\<lambda>s. fl_div s (Fin ?M)) (h ! x))"
  let ?h' = "h @ [map_tensor fl_abs (h ! x), map_tensor (\<lambda>s. fl_div s (Fin ?M)) (h ! x), ?y]"
  have eq: "max_abs_scaling h x (Fin (5 / 100)) = Inr (length h + 2, ?h')"
    using assms(1) m by (rule max_abs_scaling_eq)
  have nth: "?h' ! (length h + 2) = ?y" by (simp add: nth_append)
  have "elements (map_tensor fl_abs ?y) = map Fin (map (\<lambda>a. \<bar>a\<bar> / ?M * (5 / 100)) rs)"
    using Mpos by (simp add: elements_map_tensor rs abs_mult)
  then have "tensor_max (map_tensor fl_abs ?y)
               = Inr (Fin (Max (set (map (\<lambda>a. \<bar>a\<bar> / ?M * (5 / 100)) rs))))"
    using tensor_max_Fin [of "map_tensor fl_abs ?y" "map (\<lambda>a. \<bar>a\<bar> / ?M * (5 / 100)) rs"] ne
    by simp
  moreover have "set (map (\<lambda>a. \<bar>a\<bar> / ?M * (5 / 100)) rs) = (\<lambda>a. a / ?M * (5 / 100)) ` ?A"
    by (simp add: image_image)
  moreover have "Max ((\<lambda>a. a / ?M * (5 / 100)) ` ?A) = 5 / 100"
    using Mpos ne by (intro Max_scaled) simp_all
  ultimately have peak: "tensor_max (map_tensor fl_abs ?y) = Inr (Fin (5 / 100))"
    by simp
  have keep: "\<forall>a<length h. ?h' ! a = h ! a" by (simp add: nth_append)
  show ?thesis
    using eq peak keep
    by (intro exI [of _ "length h + 2"] exI [of _ ?h']) (simp only: nth, simp)
qed

theorem max_abs_scaling_peak_witness:
  "(0::nat) < length [\<lparr>lead = [], width = 2, rows = [[Fin 2, Fin (- 4)]]\<rparr>]
   \<and> elements ([\<lparr>lead = [], width = 2, rows = [[Fin 2, Fin (- 4)]]\<rparr>] ! 0) = [Fin 2, Fin (- 4)]
   \<and> is_finite (Fin 2) \<and> is_finite (Fin (- 4)) \<and> Fin 2 \<noteq> Fin 0
   \<and> max_abs_scaling [\<lparr>lead = [], width = 2, rows = [[Fin 2, Fin (- 4)]]\<rparr>] 0 (Fin (5 / 100))
        = Inr (3, [\<lparr>lead = [], width = 2, rows = [[Fin 2, Fin (- 4)]]\<rparr>,
                   \<lparr>lead = [], width = 2, rows = [[Fin 2, Fin 4]]\<rparr>,
                   \<lparr>lead = [], width = 2, rows = [[Fin (1 / 2), Fin (- 1)]]\<rparr>,
                   \<lparr>lead = [], width = 2, rows = [[Fin (1 / 40), Fin (- (1 / 20))]]\<rparr>])
   \<and> tensor_max (map_tensor fl_abs \<lparr>lead = [], width = 2, rows = [[Fin (1 / 40), Fin (- (1 / 20))]]\<rparr>)
        = Inr (Fin (5 / 100))"
  using max_abs_scaling_peak [of 0 "[\<lparr>lead = [], width = 2, rows = [[Fin 2, Fin (- 4)]]\<rparr>]"]
  by (simp add: max_abs_scaling_def alloc_def map_tensor_def tensor_max_def elements_def
        is_finite_def)

section \<open>Mask builder\<close>

subsection \<open>Parsing: the bounds of every interval are not negative\<close>








lemma generate_gradio_audio_mask_error:
  "parse_intervals (split_on CHR '','' spec) = Inl e \<Longrightarrow>
     generate_gradio_audio_mask audio sample_rate spec = Inl e"
  by (simp add: generate_gradio_audio_mask_def)

subsection \<open>Zeroing the slices\<close>












lemma mask_scenario:
  "generate_gradio_audio_mask \<lparr>lead = [], width = 50, rows = [replicate 50 (0::real)]\<rparr> 10 ''0-1,3-4''
     = Inr \<lparr>lead = [], width = 50,
            rows = [replicate 10 0 @ replicate 20 1 @ replicate 10 0 @ replicate 10 (1::int)]\<rparr>"
  by code_simp



end
